theory Spec2Isabelle
  imports Main "HOL-Library.Word" "HOL-Library.Sublist" "HOL-Library.Signed_Division"
begin

unbundle bit_operations_syntax

section \<open>Fortifi Open ID (gofid): a shallow embedding\<close>

text \<open>
  The embedding follows the revision of \<^verbatim>\<open>gofid.go\<close> that writes the time key first
  (constants, \<^verbatim>\<open>Generate\<close>, \<^verbatim>\<open>Verify\<close>, \<^verbatim>\<open>GetTimeFromID\<close>, \<^verbatim>\<open>isValidIndicator\<close>,
  \<^verbatim>\<open>getBase32TimeKey\<close>, \<^verbatim>\<open>getRandString\<close>).

  Go strings are byte sequences and \<^verbatim>\<open>len\<close> counts bytes: a string is a \<^typ>\<open>string\<close>, one
  \<^typ>\<open>char\<close> per byte. A Go result pair \<^verbatim>\<open>(v, err)\<close> is a pair whose second component is
  an \<^typ>\<open>'a option\<close>, \<^term>\<open>None\<close> for \<^verbatim>\<open>nil\<close>. The two inputs that \<^verbatim>\<open>Generate\<close> reads from
  its environment are parameters: \<open>now\<close>, the value of \<^verbatim>\<open>time.Now().UnixNano()\<close> (an
  \<^verbatim>\<open>int64\<close>), and \<open>rnd\<close>, where \<open>rnd i\<close> is the \<open>i\<close>-th number drawn from the freshly
  seeded generator, which \<^verbatim>\<open>rand.Intn(n)\<close> reduces to the interval from \<open>0\<close> to \<open>n - 1\<close>.
\<close>

subsection \<open>Errors and times\<close>

datatype error =
    ErrInvalidTimeKey   \<comment> \<open>\<^verbatim>\<open>"Invalid time key"\<close>\<close>
  | ErrVendorLength     \<comment> \<open>\<^verbatim>\<open>"Vendor must be of length '3'"\<close>\<close>
  | ErrTypeLength       \<comment> \<open>\<^verbatim>\<open>"Type must be of length '2'"\<close>\<close>
  | ErrInvalidLength    \<comment> \<open>\<^verbatim>\<open>"ID is of invalid length"\<close>\<close>
  | ErrInvalidFormat    \<comment> \<open>\<^verbatim>\<open>"ID format is invalid"\<close>\<close>
  | ErrElementCount     \<comment> \<open>\<^verbatim>\<open>"Unexpected element count in ID"\<close>\<close>
  | ErrChecksum         \<comment> \<open>\<^verbatim>\<open>"Checksum does not match vendor secret"\<close>\<close>
  | ErrSyntax           \<comment> \<open>\<^verbatim>\<open>strconv.ErrSyntax\<close>\<close>
  | ErrRange            \<comment> \<open>\<^verbatim>\<open>strconv.ErrRange\<close>\<close>
  | RuntimePanic        \<comment> \<open>an index or slice expression out of range\<close>

text \<open>
  A \<^verbatim>\<open>time.Time\<close> is either the zero value \<^verbatim>\<open>time.Time{}\<close> or \<^verbatim>\<open>time.Unix(0, n)\<close>, the
  instant \<open>n\<close> nanoseconds after the Unix epoch, \<open>n\<close> an \<^verbatim>\<open>int64\<close>.
\<close>

datatype Time = ZeroTime | UnixTime "64 word"

subsection \<open>Constants\<close>

definition vendorLength :: nat where "vendorLength = 3"
definition typeElementLength :: nat where "typeElementLength = 2"
definition priLocationLength :: nat where "priLocationLength = 5"
definition idLength :: nat where "idLength = 32"
definition timeKeyBase :: nat where "timeKeyBase = 36"
definition randLen :: nat where "randLen = 7"
definition paddingChar :: char where "paddingChar = CHR ''=''"
definition delimitChar :: char where "delimitChar = CHR ''-''"
definition idElements :: nat where "idElements = 4"
definition timeKeyLength :: int where "timeKeyLength = 9"
definition unknownLocationValue :: string where "unknownLocationValue = ''MISCR''"
definition letterBytes :: string where "letterBytes = ''0123456789ABCDEFGHIJKLMNOPQRSTUVWXYZ''"

definition IndicatorEntity :: string where "IndicatorEntity = ''E''"
definition IndicatorLog :: string where "IndicatorLog = ''L''"
definition IndicatorCache :: string where "IndicatorCache = ''C''"
definition IndicatorMemory :: string where "IndicatorMemory = ''M''"
definition IndicatorMeta :: string where "IndicatorMeta = ''A''"
definition IndicatorConfiguration :: string where "IndicatorConfiguration = ''F''"
definition IndicatorTimeSeries :: string where "IndicatorTimeSeries = ''T''"
definition IndicatorRelationship :: string where "IndicatorRelationship = ''R''"
definition IndicatorNote :: string where "IndicatorNote = ''N''"
definition IndicatorFile :: string where "IndicatorFile = ''D''"

definition IndicatorChecksum :: string where
  "IndicatorChecksum = IndicatorEntity @ IndicatorLog @ IndicatorCache @ IndicatorMemory @
     IndicatorMeta @ IndicatorConfiguration @ IndicatorTimeSeries @ IndicatorTimeSeries @
     IndicatorRelationship @ IndicatorNote @ IndicatorFile"

text \<open>The ten defined indicator values.\<close>

definition indicators :: "string list" where
  "indicators = [IndicatorEntity, IndicatorLog, IndicatorCache, IndicatorMemory, IndicatorMeta,
     IndicatorConfiguration, IndicatorTimeSeries, IndicatorRelationship, IndicatorNote,
     IndicatorFile]"

subsection \<open>The library functions the code calls\<close>

text \<open>
  \<^verbatim>\<open>strings.ToUpper\<close> on ASCII bytes: the letters \<open>a\<close> to \<open>z\<close> are mapped to \<open>A\<close> to \<open>Z\<close>, every
  other byte stays. (On a string with a byte outside ASCII, Go decodes UTF-8 and maps runes;
  that path is not modelled, and every statement below that upper-cases an arbitrary input
  assumes the input to be ASCII.)
\<close>

definition lowerBytes :: string where "lowerBytes = ''abcdefghijklmnopqrstuvwxyz''"
definition upperBytes :: string where "upperBytes = ''ABCDEFGHIJKLMNOPQRSTUVWXYZ''"
definition digitBytes :: string where "digitBytes = ''0123456789''"

definition upper_byte :: "char \<Rightarrow> char" where
  "upper_byte c = (case map_of (zip lowerBytes upperBytes) c of None \<Rightarrow> c | Some u \<Rightarrow> u)"

definition ToUpper :: "string \<Rightarrow> string" where
  "ToUpper s = map upper_byte s"

definition ascii :: "string \<Rightarrow> bool" where
  "ascii s = list_all (\<lambda>c. (of_char c :: nat) < 128) s"

text \<open>\<^verbatim>\<open>strings.Contains(s, substr)\<close>: \<open>substr\<close> occurs in \<open>s\<close> as a contiguous block.\<close>

fun Contains :: "string \<Rightarrow> string \<Rightarrow> bool" where
  "Contains [] substr = (substr = [])"
| "Contains (c # cs) substr = (prefix substr (c # cs) \<or> Contains cs substr)"

text \<open>\<^verbatim>\<open>strings.Split(s, sep)\<close> for a separator of one byte.\<close>

fun Split :: "string \<Rightarrow> char \<Rightarrow> string list" where
  "Split [] sep = [[]]"
| "Split (c # cs) sep =
     (if c = sep then [] # Split cs sep
      else (case Split cs sep of [] \<Rightarrow> [[c]] | w # ws \<Rightarrow> (c # w) # ws))"

text \<open>\<^verbatim>\<open>strings.Replace(s, old, new, -1)\<close> for an \<open>old\<close> of one byte: every occurrence is replaced.\<close>

definition Replace :: "string \<Rightarrow> char \<Rightarrow> string \<Rightarrow> string" where
  "Replace s old new = concat (map (\<lambda>c. if c = old then new else [c]) s)"

text \<open>
  \<^verbatim>\<open>strconv.FormatInt(i, base)\<close>: the digits of \<open>\<bar>i\<bar>\<close>, most significant first, in lower case,
  after a minus sign when \<open>i\<close> is negative.
\<close>

definition formatDigits :: string where
  "formatDigits = ''0123456789abcdefghijklmnopqrstuvwxyz''"

function formatBits :: "nat \<Rightarrow> nat \<Rightarrow> string" where
  "formatBits u b =
     (if b < 2 \<or> u < b then [formatDigits ! u] else formatBits (u div b) b @ [formatDigits ! (u mod b)])"
  by pat_completeness auto
termination
  by (relation "measure (\<lambda>(u, b). u)") auto

declare formatBits.simps [simp del]

definition FormatInt :: "int \<Rightarrow> nat \<Rightarrow> string" where
  "FormatInt i b = (if i < 0 then CHR ''-'' # formatBits (nat (- i)) b else formatBits (nat i) b)"

text \<open>
  \<^verbatim>\<open>strconv.ParseInt(s, base, 64)\<close> for a base from 2 to 36: an optional sign, then digits
  \<open>0-9\<close>, \<open>a-z\<close> or \<open>A-Z\<close> below the base. The empty string and a string with any other byte
  are syntax errors; a value outside \<^verbatim>\<open>int64\<close> is a range error.
\<close>

fun index_from :: "nat \<Rightarrow> char \<Rightarrow> string \<Rightarrow> nat option" where
  "index_from k c [] = None"
| "index_from k c (x # xs) = (if c = x then Some k else index_from (k + 1) c xs)"

definition digit_val :: "char \<Rightarrow> nat option" where
  "digit_val c =
     (case index_from 0 c digitBytes of Some d \<Rightarrow> Some d
      | None \<Rightarrow> (case index_from 10 c lowerBytes of Some d \<Rightarrow> Some d
                  | None \<Rightarrow> index_from 10 c upperBytes))"

fun parseDigits :: "nat \<Rightarrow> nat \<Rightarrow> string \<Rightarrow> error + nat" where
  "parseDigits b n [] = Inr n"
| "parseDigits b n (c # cs) =
     (case digit_val c of
        None \<Rightarrow> Inl ErrSyntax
      | Some d \<Rightarrow>
          if d \<ge> b then Inl ErrSyntax
          else if n \<ge> (2 ^ 64 - 1) div b + 1 then Inl ErrRange
          else if n * b + d > 2 ^ 64 - 1 then Inl ErrRange
          else parseDigits b (n * b + d) cs)"

definition ParseUint :: "string \<Rightarrow> nat \<Rightarrow> error + nat" where
  "ParseUint s b = (if s = [] then Inl ErrSyntax else parseDigits b 0 s)"

definition ParseInt :: "string \<Rightarrow> nat \<Rightarrow> error + int" where
  "ParseInt s b =
     (if s = [] then Inl ErrSyntax
      else
        let neg = (hd s = CHR ''-'');
            s' = (if hd s = CHR ''+'' \<or> hd s = CHR ''-'' then tl s else s)
        in case ParseUint s' b of
             Inl e \<Rightarrow> Inl e
           | Inr un \<Rightarrow>
               if \<not> neg \<and> un \<ge> 2 ^ 63 then Inl ErrRange
               else if neg \<and> un > 2 ^ 63 then Inl ErrRange
               else Inr (if neg then - int un else int un))"

text \<open>\<^verbatim>\<open>hex.EncodeToString\<close>: two lower-case hexadecimal digits for every byte.\<close>

definition hextable :: string where "hextable = ''0123456789abcdef''"

definition EncodeToString :: "8 word list \<Rightarrow> string" where
  "EncodeToString bs =
     concat (map (\<lambda>v. [hextable ! unat (drop_bit 4 v), hextable ! unat (v AND 0x0f)]) bs)"

text \<open>
  \<^verbatim>\<open>crypto/md5\<close>: the MD5 digest of RFC 1321 (padding to a multiple of 64 bytes, four
  rounds of sixteen steps on each block of sixteen little-endian 32-bit words, the four
  chaining words written out little-endian).
\<close>

type_synonym u32 = "32 word"

definition md5_shifts :: "nat list" where
  "md5_shifts =
     [7, 12, 17, 22, 7, 12, 17, 22, 7, 12, 17, 22, 7, 12, 17, 22,
      5, 9, 14, 20, 5, 9, 14, 20, 5, 9, 14, 20, 5, 9, 14, 20,
      4, 11, 16, 23, 4, 11, 16, 23, 4, 11, 16, 23, 4, 11, 16, 23,
      6, 10, 15, 21, 6, 10, 15, 21, 6, 10, 15, 21, 6, 10, 15, 21]"

definition md5_table :: "u32 list" where
  "md5_table =
     [0xd76aa478, 0xe8c7b756, 0x242070db, 0xc1bdceee, 0xf57c0faf, 0x4787c62a, 0xa8304613, 0xfd469501,
      0x698098d8, 0x8b44f7af, 0xffff5bb1, 0x895cd7be, 0x6b901122, 0xfd987193, 0xa679438e, 0x49b40821,
      0xf61e2562, 0xc040b340, 0x265e5a51, 0xe9b6c7aa, 0xd62f105d, 0x02441453, 0xd8a1e681, 0xe7d3fbc8,
      0x21e1cde6, 0xc33707d6, 0xf4d50d87, 0x455a14ed, 0xa9e3e905, 0xfcefa3f8, 0x676f02d9, 0x8d2a4c8a,
      0xfffa3942, 0x8771f681, 0x6d9d6122, 0xfde5380c, 0xa4beea44, 0x4bdecfa9, 0xf6bb4b60, 0xbebfbc70,
      0x289b7ec6, 0xeaa127fa, 0xd4ef3085, 0x04881d05, 0xd9d4d039, 0xe6db99e5, 0x1fa27cf8, 0xc4ac5665,
      0xf4292244, 0x432aff97, 0xab9423a7, 0xfc93a039, 0x655b59c3, 0x8f0ccc92, 0xffeff47d, 0x85845dd1,
      0x6fa87e4f, 0xfe2ce6e0, 0xa3014314, 0x4e0811a1, 0xf7537e82, 0xbd3af235, 0x2ad7d2bb, 0xeb86d391]"

definition le_bytes :: "nat \<Rightarrow> nat \<Rightarrow> 8 word list" where
  "le_bytes k n = map (\<lambda>i. of_nat (n div 256 ^ i)) [0..<k]"

definition md5_pad :: "8 word list \<Rightarrow> 8 word list" where
  "md5_pad m =
     m @ [0x80] @ replicate ((119 - length m mod 64) mod 64) 0 @ le_bytes 8 (8 * length m)"

fun le_words :: "8 word list \<Rightarrow> u32 list" where
  "le_words (a # b # c # d # r) =
     (ucast a OR push_bit 8 (ucast b) OR push_bit 16 (ucast c) OR push_bit 24 (ucast d)) # le_words r"
| "le_words r = []"

definition rotl32 :: "nat \<Rightarrow> u32 \<Rightarrow> u32" where
  "rotl32 n w = push_bit n w OR drop_bit (32 - n) w"

definition md5_step :: "u32 list \<Rightarrow> u32 \<times> u32 \<times> u32 \<times> u32 \<Rightarrow> nat \<Rightarrow> u32 \<times> u32 \<times> u32 \<times> u32" where
  "md5_step M st i =
     (case st of (a, b, c, d) \<Rightarrow>
        let f = (if i < 16 then (b AND c) OR (NOT b AND d)
                 else if i < 32 then (d AND b) OR (NOT d AND c)
                 else if i < 48 then b XOR c XOR d
                 else c XOR (b OR NOT d));
            g = (if i < 16 then i
                 else if i < 32 then (5 * i + 1) mod 16
                 else if i < 48 then (3 * i + 5) mod 16
                 else (7 * i) mod 16);
            t = f + a + md5_table ! i + M ! g
        in (d, b + rotl32 (md5_shifts ! i) t, b, c))"

definition md5_block :: "u32 \<times> u32 \<times> u32 \<times> u32 \<Rightarrow> 8 word list \<Rightarrow> u32 \<times> u32 \<times> u32 \<times> u32" where
  "md5_block st blk =
     (case st of (a0, b0, c0, d0) \<Rightarrow>
        case foldl (md5_step (le_words blk)) st [0..<64] of (a, b, c, d) \<Rightarrow>
          (a0 + a, b0 + b, c0 + c, d0 + d))"

function md5_blocks :: "u32 \<times> u32 \<times> u32 \<times> u32 \<Rightarrow> 8 word list \<Rightarrow> u32 \<times> u32 \<times> u32 \<times> u32" where
  "md5_blocks st bs =
     (if length bs < 64 then st else md5_blocks (md5_block st (take 64 bs)) (drop 64 bs))"
  by pat_completeness auto
termination
  by (relation "measure (\<lambda>(st, bs). length bs)") auto

declare md5_blocks.simps [simp del]

definition word_le_bytes :: "u32 \<Rightarrow> 8 word list" where
  "word_le_bytes w = [ucast w, ucast (drop_bit 8 w), ucast (drop_bit 16 w), ucast (drop_bit 24 w)]"

definition md5_Sum :: "8 word list \<Rightarrow> 8 word list" where
  "md5_Sum m =
     (case md5_blocks (0x67452301, 0xefcdab89, 0x98badcfe, 0x10325476) (md5_pad m) of
        (a, b, c, d) \<Rightarrow> word_le_bytes a @ word_le_bytes b @ word_le_bytes c @ word_le_bytes d)"

text \<open>The conversion \<^verbatim>\<open>[]byte(s)\<close>.\<close>

definition bytes :: "string \<Rightarrow> 8 word list" where
  "bytes s = map of_char s"

text \<open>
  \<^verbatim>\<open>regexp.MustCompile(idRegex).FindStringSubmatch(id)\<close> with
  \<^verbatim>\<open>idRegex = "[A-Z0-9=]{9}-[A-Z0-9=]{8}-[A-Z0-9=]{5}-[A-Z0-9=]{7}\\z"\<close>. The pattern has no
  group, so the result is the one-element slice of the leftmost match, or \<^verbatim>\<open>nil\<close> when
  nothing matches. The start of a match is free, its end is the end of the text.
\<close>

definition idClass :: "char \<Rightarrow> bool" where
  "idClass c = (c \<in> set (upperBytes @ digitBytes @ ''=''))"

definition idRegex :: "string \<Rightarrow> bool" where
  "idRegex t =
     (length t = 32 \<and>
      list_all idClass (take 9 t) \<and> t ! 9 = CHR ''-'' \<and>
      list_all idClass (take 8 (drop 10 t)) \<and> t ! 18 = CHR ''-'' \<and>
      list_all idClass (take 5 (drop 19 t)) \<and> t ! 24 = CHR ''-'' \<and>
      list_all idClass (drop 25 t))"

definition FindStringSubmatch :: "string \<Rightarrow> string list" where
  "FindStringSubmatch s =
     (case find (\<lambda>k. idRegex (drop k s)) [0..<Suc (length s)] of
        None \<Rightarrow> []
      | Some k \<Rightarrow> [drop k s])"

subsection \<open>The identifier codec\<close>

definition isValidIndicator :: "string \<Rightarrow> bool" where
  "isValidIndicator proposed = Contains IndicatorChecksum (ToUpper proposed)"

definition getBase32TimeKey :: "64 word \<Rightarrow> string \<times> error option" where
  "getBase32TimeKey time =
     (let nanoTime = sint time;
          miliTime = nanoTime sdiv 1000000;
          timeKey = ToUpper (FormatInt miliTime timeKeyBase);
          paddingLen = (int (length timeKey) - timeKeyLength) * - 1;
          timeKey' = (if paddingLen > 0 then timeKey @ replicate (nat paddingLen) paddingChar
                      else timeKey)
      in if paddingLen < 0 then ([], Some ErrInvalidTimeKey) else (timeKey', None))"

definition getRandString :: "nat \<Rightarrow> (nat \<Rightarrow> nat) \<Rightarrow> string" where
  "getRandString n rnd = map (\<lambda>i. letterBytes ! (rnd i mod length letterBytes)) [0..<n]"

definition Generate ::
  "64 word \<Rightarrow> (nat \<Rightarrow> nat) \<Rightarrow> string \<Rightarrow> string \<Rightarrow> string \<Rightarrow> string \<Rightarrow> string \<Rightarrow> string
     \<Rightarrow> string \<times> error option" where
  "Generate now rnd systemIndicator vendor nType nSubType priLocation vendorSecret =
     (case getBase32TimeKey now of
        (timeKey, Some err) \<Rightarrow> ([], Some err)
      | (timeKey, None) \<Rightarrow>
          let systemIndicator' =
                (if \<not> isValidIndicator systemIndicator \<or> length systemIndicator = 0
                 then IndicatorEntity else systemIndicator)
          in if length vendor \<noteq> vendorLength then ([], Some ErrVendorLength)
             else if length nType \<noteq> typeElementLength then ([], Some ErrTypeLength)
             else
               let nSubType' = (if length nSubType \<noteq> typeElementLength then nType else nSubType);
                   priLocation' = (if length priLocation \<noteq> priLocationLength
                                   then unknownLocationValue else priLocation);
                   randomString = getRandString randLen rnd;
                   preResult = ToUpper (timeKey @ [delimitChar] @ systemIndicator' @ vendor @
                                 nType @ nSubType' @ [delimitChar] @ priLocation' @
                                 [delimitChar] @ randomString)
               in if length vendorSecret > 0 then
                    (if length preResult < 1 then ([], Some RuntimePanic)
                     else
                       let preResult' = take (length preResult - 1) preResult;
                           hexEncoding = EncodeToString (md5_Sum (bytes (vendorSecret @ preResult')))
                       in case hexEncoding of
                            [] \<Rightarrow> ([], Some RuntimePanic)
                          | h # _ \<Rightarrow> (preResult' @ ToUpper [h], None))
                  else (preResult, None))"

definition Verify :: "string \<Rightarrow> string \<Rightarrow> bool \<times> error option" where
  "Verify fid vendorSecret =
     (if length fid \<noteq> idLength then (False, Some ErrInvalidLength)
      else if length (FindStringSubmatch fid) \<noteq> 1 then (False, Some ErrInvalidFormat)
      else if length (Split fid delimitChar) \<noteq> idElements then (False, Some ErrElementCount)
      else if vendorSecret \<noteq> [] then
        (if length fid < 1 then (False, Some RuntimePanic)
         else
           let checkChar = drop (length fid - 1) fid;
               idMinusCS = take (length fid - 1) fid;
               hexEncoding = EncodeToString (md5_Sum (bytes (vendorSecret @ idMinusCS)))
           in case hexEncoding of
                [] \<Rightarrow> (False, Some RuntimePanic)
              | h # _ \<Rightarrow>
                  if ToUpper [h] \<noteq> checkChar then (False, Some ErrChecksum) else (True, None))
      else (True, None))"

definition GetTimeFromID :: "string \<Rightarrow> Time \<times> error option" where
  "GetTimeFromID fid =
     (case Verify fid [] of
        (validate, err) \<Rightarrow>
          if validate \<noteq> True then (ZeroTime, err)
          else
            (case Split fid delimitChar of
               [] \<Rightarrow> (ZeroTime, Some RuntimePanic)
             | miliseconds # _ \<Rightarrow>
                 (case ParseInt (Replace miliseconds paddingChar []) 36 of
                    Inl e \<Rightarrow> (ZeroTime, Some e)
                  | Inr msInt \<Rightarrow> (UnixTime (word_of_int msInt * 1000000), None))))"

subsection \<open>Describe\<close>

record Description =
  Indicator :: string
  VendorKey :: string
  Type :: string
  SubType :: string
  Location :: string
  TimeKey :: string
  Time :: Time
  RandomString :: string

definition emptyDescription :: Description where
  "emptyDescription = \<lparr>Indicator = [], VendorKey = [], Type = [], SubType = [], Location = [],
     TimeKey = [], Time = ZeroTime, RandomString = []\<rparr>"

text \<open>
  Modelled from the spec: \<^verbatim>\<open>Describe\<close> for the time-first layout is not among the sources
  (the \<^verbatim>\<open>Describe\<close> that is there belongs to the earlier revision, whose identifiers start
  with the type segment and whose \<^verbatim>\<open>Verify\<close> rejects every time-first identifier); the
  README declares it and its result type. After the structural \<^verbatim>\<open>Verify\<close> with no secret,
  whose failure is returned unchanged, the four components are cut at the fixed widths:
  indicator (1), vendor (3), type (2) and subtype (2) from the type segment, the location
  from the third component, the time text from the first and the random suffix from the
  fourth; the time is decoded by \<^verbatim>\<open>GetTimeFromID\<close>, whose failure is returned too.
\<close>

definition Describe :: "string \<Rightarrow> Description \<times> error option" where
  "Describe fid =
     (case Verify fid [] of
        (_, Some err) \<Rightarrow> (emptyDescription, Some err)
      | (_, None) \<Rightarrow>
          (case Split fid delimitChar of
             [timeKey, typeCom, location, randStr] \<Rightarrow>
               (case GetTimeFromID fid of
                  (_, Some err) \<Rightarrow> (emptyDescription, Some err)
                | (time, None) \<Rightarrow>
                    (\<lparr>Indicator = take 1 typeCom, VendorKey = take 3 (drop 1 typeCom),
                      Type = take 2 (drop 4 typeCom), SubType = take 2 (drop 6 typeCom),
                      Location = location, TimeKey = timeKey, Time = time,
                      RandomString = randStr\<rparr>, None))
           | _ \<Rightarrow> (emptyDescription, Some RuntimePanic)))"

subsection \<open>Notions used in the statements\<close>

text \<open>
  The checksum character that \<^verbatim>\<open>Generate\<close> appends and \<^verbatim>\<open>Verify\<close> recomputes: the first
  character of the hex-encoded MD5 digest of the secret followed by the first 31 characters,
  in upper case (a string of length one).
\<close>

definition checksumChar :: "string \<Rightarrow> string \<Rightarrow> string" where
  "checksumChar secret pre = ToUpper (take 1 (EncodeToString (md5_Sum (bytes (secret @ pre)))))"

text \<open>
  The canonical layout in words: 32 characters, a dash at the positions 9, 18 and 24 (after
  segments of widths 9, 8, 5 and 7), and a character of the class \<^verbatim>\<open>[A-Z0-9=]\<close> at every
  other position.
\<close>

definition canonical :: "string \<Rightarrow> bool" where
  "canonical fid =
     (length fid = 32 \<and>
      list_all (\<lambda>i. if i = 9 \<or> i = 18 \<or> i = 24 then fid ! i = CHR ''-'' else idClass (fid ! i)) [0..<32])"

definition timeDigits :: "64 word \<Rightarrow> string" where
  "timeDigits now = ToUpper (formatBits (nat (sint now div 1000000)) 36)"

definition preResult ::
  "64 word \<Rightarrow> (nat \<Rightarrow> nat) \<Rightarrow> string \<Rightarrow> string \<Rightarrow> string \<Rightarrow> string \<Rightarrow> string \<Rightarrow> string" where
  "preResult now rnd systemIndicator vendor nType nSubType priLocation =
     ToUpper (fst (getBase32TimeKey now) @ [delimitChar] @
       (if \<not> isValidIndicator systemIndicator \<or> length systemIndicator = 0
        then IndicatorEntity else systemIndicator) @ vendor @ nType @
       (if length nSubType \<noteq> typeElementLength then nType else nSubType) @ [delimitChar] @
       (if length priLocation \<noteq> priLocationLength then unknownLocationValue else priLocation) @
       [delimitChar] @ getRandString randLen rnd)"

definition validInput :: "string \<Rightarrow> string \<Rightarrow> string \<Rightarrow> string \<Rightarrow> string \<Rightarrow> bool" where
  "validInput indicator vendor nType nSubType priLocation =
     (indicator \<in> set indicators \<and> length vendor = 3 \<and> length nType = 2 \<and>
      length nSubType = 2 \<and> (priLocation = [] \<or> length priLocation = 5))"

section \<open>Properties\<close>

subsection \<open>Characters\<close>

lemma digit_table:
  "list_all (\<lambda>k. upper_byte (formatDigits ! k) = letterBytes ! k \<and> idClass (letterBytes ! k) \<and>
      letterBytes ! k \<noteq> CHR ''='' \<and> letterBytes ! k \<noteq> CHR ''-'' \<and> letterBytes ! k \<noteq> CHR ''+'' \<and>
      digit_val (letterBytes ! k) = Some k) [0..<36]"
  by code_simp

lemma digit_facts:
  assumes "k < 36"
  shows "upper_byte (formatDigits ! k) = letterBytes ! k" and "idClass (letterBytes ! k)"
    and "letterBytes ! k \<noteq> CHR ''=''" and "letterBytes ! k \<noteq> CHR ''-''"
    and "letterBytes ! k \<noteq> CHR ''+''" and "digit_val (letterBytes ! k) = Some k"
  using assms digit_table by (simp_all add: list_all_iff)

lemma class_table:
  "list_all (\<lambda>c. upper_byte c = c \<and> c \<noteq> CHR ''-'' \<and> c \<noteq> CHR ''+'')
     (upperBytes @ digitBytes @ ''='')"
  by code_simp

lemma idClass_facts:
  assumes "idClass c"
  shows "upper_byte c = c" and "c \<noteq> CHR ''-''" and "c \<noteq> CHR ''+''"
  using assms class_table unfolding idClass_def list_all_iff by blast+

lemma ToUpper_idClass: "list_all idClass s \<Longrightarrow> ToUpper s = s"
  by (induction s) (simp_all add: ToUpper_def idClass_facts)

lemma ToUpper_append: "ToUpper (a @ b) = ToUpper a @ ToUpper b"
  by (simp add: ToUpper_def)

lemma length_ToUpper: "length (ToUpper s) = length s"
  by (simp add: ToUpper_def)

subsection \<open>Splitting and the structural pattern\<close>

lemma Split_nonempty: "Split s sep \<noteq> []"
  by (induction s) (auto split: list.splits)

lemma Split_no_sep: "sep \<notin> set s \<Longrightarrow> Split s sep = [s]"
  by (induction s) auto

lemma Split_append: "sep \<notin> set a \<Longrightarrow> Split (a @ sep # r) sep = a # Split r sep"
  by (induction a) (auto split: list.splits)

lemma idClass_not_sep: "list_all idClass s \<Longrightarrow> CHR ''-'' \<notin> set s"
  by (auto simp: list_all_iff dest: idClass_facts(2))

lemma idRegex_build:
  assumes "length a = 9" "length b = 8" "length c = 5" "length d = 7"
    and "list_all idClass a" "list_all idClass b" "list_all idClass c" "list_all idClass d"
  shows "idRegex (a @ CHR ''-'' # b @ CHR ''-'' # c @ CHR ''-'' # d)"
  using assms by (simp add: idRegex_def nth_append)

lemma idRegex_parts:
  assumes "idRegex s"
  shows "s = take 9 s @ CHR ''-'' # take 8 (drop 10 s) @ CHR ''-'' # take 5 (drop 19 s) @
             CHR ''-'' # drop 25 s"
proof -
  from assms have len: "length s = 32" and d: "s ! 9 = CHR ''-''" "s ! 18 = CHR ''-''" "s ! 24 = CHR ''-''"
    by (simp_all add: idRegex_def)
  have 1: "s = take 9 s @ s ! 9 # drop 10 s"
    using len id_take_nth_drop [of 9 s] by simp
  have 2: "drop 10 s = take 8 (drop 10 s) @ s ! 18 # drop 19 s"
    using len id_take_nth_drop [of 8 "drop 10 s"] by simp
  have 3: "drop 19 s = take 5 (drop 19 s) @ s ! 24 # drop 25 s"
    using len id_take_nth_drop [of 5 "drop 19 s"] by simp
  show ?thesis
    using 1 2 3 d by metis
qed

lemma idRegex_length: "idRegex s \<Longrightarrow> length s = 32"
  by (simp add: idRegex_def)

lemma Split_idRegex:
  assumes "idRegex s"
  shows "Split s CHR ''-'' = [take 9 s, take 8 (drop 10 s), take 5 (drop 19 s), drop 25 s]"
proof -
  from assms have c: "CHR ''-'' \<notin> set (take 9 s)" "CHR ''-'' \<notin> set (take 8 (drop 10 s))"
    "CHR ''-'' \<notin> set (take 5 (drop 19 s))" "CHR ''-'' \<notin> set (drop 25 s)"
    by (simp_all add: idRegex_def idClass_not_sep)
  have "Split (take 9 s @ CHR ''-'' # take 8 (drop 10 s) @ CHR ''-'' # take 5 (drop 19 s) @
             CHR ''-'' # drop 25 s) CHR ''-'' =
        [take 9 s, take 8 (drop 10 s), take 5 (drop 19 s), drop 25 s]"
    using c by (simp add: Split_append Split_no_sep)
  then show ?thesis
    using idRegex_parts [OF assms] by simp
qed

lemma FindStringSubmatch_32:
  assumes "length s = 32"
  shows "length (FindStringSubmatch s) = 1 \<longleftrightarrow> idRegex s"
proof
  assume "length (FindStringSubmatch s) = 1"
  then obtain k where "find (\<lambda>k. idRegex (drop k s)) [0..<Suc (length s)] = Some k"
    by (auto simp: FindStringSubmatch_def split: option.splits)
  then have "idRegex (drop k s)"
    by (auto simp: find_Some_iff)
  then have "length (drop k s) = 32"
    by (rule idRegex_length)
  with assms have "k = 0" by simp
  with \<open>idRegex (drop k s)\<close> show "idRegex s" by simp
next
  assume "idRegex s"
  then have "idRegex (drop 0 s)" and "0 \<in> set [0..<Suc (length s)]"
    by simp_all
  then have "find (\<lambda>k. idRegex (drop k s)) [0..<Suc (length s)] \<noteq> None"
    unfolding find_None_iff by blast
  then show "length (FindStringSubmatch s) = 1"
    by (auto simp: FindStringSubmatch_def split: option.splits)
qed

lemma Verify_structural:
  "Verify fid [] =
     (if length fid \<noteq> 32 then (False, Some ErrInvalidLength)
      else if \<not> idRegex fid then (False, Some ErrInvalidFormat)
      else (True, None))"
proof (cases "length fid = 32")
  case False
  then show ?thesis by (simp add: Verify_def idLength_def)
next
  case len: True
  show ?thesis
  proof (cases "idRegex fid")
    case False
    with len have "length (FindStringSubmatch fid) \<noteq> 1"
      using FindStringSubmatch_32 [of fid] by blast
    with len False show ?thesis by (simp add: Verify_def idLength_def)
  next
    case True
    with len have "length (FindStringSubmatch fid) = 1"
      using FindStringSubmatch_32 [of fid] by blast
    with len True show ?thesis
      by (simp add: Verify_def idLength_def idElements_def delimitChar_def Split_idRegex)
  qed
qed

subsection \<open>The checksum and \<^verbatim>\<open>Verify\<close>\<close>

lemma md5_Sum_length: "length (md5_Sum m) = 16"
  by (simp add: md5_Sum_def word_le_bytes_def split: prod.splits)

lemma hex_table:
  "list_all (\<lambda>k. idClass (upper_byte (hextable ! k))) [0..<16]"
  by code_simp

lemma drop_bit_4_byte: "unat (drop_bit 4 (v :: 8 word)) < 16"
proof -
  have "unat (drop_bit 4 v) = unat v div 2 ^ 4"
    by (simp add: drop_bit_eq_div unat_div)
  moreover have "unat v < 2 ^ LENGTH(8)"
    by (rule unsigned_less)
  ultimately show ?thesis by simp
qed

lemma EncodeToString_md5:
  obtains h r where "EncodeToString (md5_Sum m) = h # r" and "idClass (upper_byte h)"
proof -
  obtain v vs where v: "md5_Sum m = v # vs"
    using md5_Sum_length [of m] by (cases "md5_Sum m") auto
  have "idClass (upper_byte (hextable ! unat (drop_bit 4 v)))"
    using hex_table drop_bit_4_byte [of v] by (simp add: list_all_iff)
  then show ?thesis
    using that v by (simp add: EncodeToString_def)
qed

lemma checksumChar_class:
  obtains c where "checksumChar secret pre = [c]" and "idClass c"
proof -
  obtain h r where "EncodeToString (md5_Sum (bytes (secret @ pre))) = h # r" "idClass (upper_byte h)"
    by (rule EncodeToString_md5)
  then show ?thesis
    using that by (simp add: checksumChar_def ToUpper_def)
qed

lemma Verify_checksum_step:
  assumes "vendorSecret \<noteq> []" and len: "length fid = 32" and re: "idRegex fid"
  shows "Verify fid vendorSecret =
     (if checksumChar vendorSecret (take 31 fid) \<noteq> drop 31 fid then (False, Some ErrChecksum)
      else (True, None))"
proof -
  obtain h r where h: "EncodeToString (md5_Sum (bytes (vendorSecret @ take 31 fid))) = h # r"
    by (rule EncodeToString_md5)
  have m: "length (FindStringSubmatch fid) = 1"
    using len re FindStringSubmatch_32 [of fid] by blast
  have sp: "length (Split fid CHR ''-'') = 4"
    using re by (simp add: Split_idRegex)
  have l1: "(32::nat) - 1 = 31" "\<not> (32::nat) < 1"
    by simp_all
  have "Verify fid vendorSecret =
     (if ToUpper [h] \<noteq> drop 31 fid then (False, Some ErrChecksum) else (True, None))"
    unfolding Verify_def Let_def idLength_def idElements_def delimitChar_def
    by (simp only: len l1 m sp assms(1) h if_True if_False not_False_eq_True not_True_eq_False
        refl simp_thms list.case)
  then show ?thesis
    by (simp add: checksumChar_def h)
qed

lemma Verify_secret:
  assumes "vendorSecret \<noteq> []"
  shows "Verify fid vendorSecret =
     (if length fid \<noteq> 32 then (False, Some ErrInvalidLength)
      else if \<not> idRegex fid then (False, Some ErrInvalidFormat)
      else if checksumChar vendorSecret (take 31 fid) \<noteq> drop 31 fid then (False, Some ErrChecksum)
      else (True, None))"
proof (cases "length fid = 32")
  case False
  then show ?thesis by (simp add: Verify_def idLength_def)
next
  case len: True
  show ?thesis
  proof (cases "idRegex fid")
    case False
    with len have "length (FindStringSubmatch fid) \<noteq> 1"
      using FindStringSubmatch_32 [of fid] by blast
    with len False show ?thesis by (simp add: Verify_def idLength_def)
  next
    case True
    with len show ?thesis
      by (simp add: Verify_checksum_step [OF assms])
  qed
qed

lemma Verify_no_panic: "snd (Verify fid vendorSecret) \<noteq> Some RuntimePanic"
proof (cases "vendorSecret = []")
  case True
  then show ?thesis by (simp add: Verify_structural)
next
  case False
  show ?thesis
    unfolding Verify_secret [OF False] by simp
qed

lemma list_all_segment:
  assumes "j + k \<le> length s"
  shows "list_all P (take k (drop j s)) \<longleftrightarrow> (\<forall>n<k. P (s ! (j + n)))"
  using assms by (simp add: list_all_length)

lemma idRegex_index:
  "idRegex fid \<longleftrightarrow>
     length fid = 32 \<and> (\<forall>n<9. idClass (fid ! (0 + n))) \<and> fid ! 9 = CHR ''-'' \<and>
     (\<forall>n<8. idClass (fid ! (10 + n))) \<and> fid ! 18 = CHR ''-'' \<and>
     (\<forall>n<5. idClass (fid ! (19 + n))) \<and> fid ! 24 = CHR ''-'' \<and>
     (\<forall>n<7. idClass (fid ! (25 + n)))"
proof (cases "length fid = 32")
  case False
  then show ?thesis by (simp add: idRegex_def)
next
  case True
  then have "list_all idClass (take 9 fid) \<longleftrightarrow> (\<forall>n<9. idClass (fid ! (0 + n)))"
    using list_all_segment [of 0 9 fid idClass] by simp
  moreover have "list_all idClass (take 8 (drop 10 fid)) \<longleftrightarrow> (\<forall>n<8. idClass (fid ! (10 + n)))"
    using True by (intro list_all_segment) simp
  moreover have "list_all idClass (take 5 (drop 19 fid)) \<longleftrightarrow> (\<forall>n<5. idClass (fid ! (19 + n)))"
    using True by (intro list_all_segment) simp
  moreover have "list_all idClass (drop 25 fid) \<longleftrightarrow> (\<forall>n<7. idClass (fid ! (25 + n)))"
    using True list_all_segment [of 25 7 fid idClass] by simp
  ultimately show ?thesis
    unfolding idRegex_def by blast
qed

lemma idRegex_canonical: "idRegex fid \<longleftrightarrow> canonical fid"
proof
  assume r: "idRegex fid"
  then have len: "length fid = 32"
    and in1: "\<And>n. n < 9 \<Longrightarrow> idClass (fid ! n)"
    and in2: "\<And>n. n < 8 \<Longrightarrow> idClass (fid ! (10 + n))"
    and in3: "\<And>n. n < 5 \<Longrightarrow> idClass (fid ! (19 + n))"
    and in4: "\<And>n. n < 7 \<Longrightarrow> idClass (fid ! (25 + n))"
    unfolding idRegex_index by simp_all
  have seg: "idClass (fid ! i)" if "i < 32" "i \<noteq> 9" "i \<noteq> 18" "i \<noteq> 24" for i
  proof (cases "i < 9")
    case True
    then show ?thesis by (rule in1)
  next
    case a: False
    show ?thesis
    proof (cases "i < 18")
      case True
      with a that in2 [of "i - 10"] show ?thesis by simp
    next
      case b: False
      show ?thesis
      proof (cases "i < 24")
        case True
        with b that in3 [of "i - 19"] show ?thesis by simp
      next
        case False
        with that in4 [of "i - 25"] show ?thesis by simp
      qed
    qed
  qed
  have "if i = 9 \<or> i = 18 \<or> i = 24 then fid ! i = CHR ''-'' else idClass (fid ! i)" if "i < 32" for i
    using that r seg [of i] by (auto simp: idRegex_def)
  with len show "canonical fid"
    by (simp add: canonical_def list_all_iff)
next
  assume c: "canonical fid"
  then have len: "length fid = 32"
    and all: "\<And>i. i < 32 \<Longrightarrow> if i = 9 \<or> i = 18 \<or> i = 24 then fid ! i = CHR ''-'' else idClass (fid ! i)"
    by (simp_all add: canonical_def list_all_iff)
  have 1: "idClass (fid ! (0 + n))" if "n < 9" for n
    using that all [of n] by simp
  have 2: "idClass (fid ! (10 + n))" if "n < 8" for n
    using that all [of "10 + n"] by simp
  have 3: "idClass (fid ! (19 + n))" if "n < 5" for n
    using that all [of "19 + n"] by simp
  have 4: "idClass (fid ! (25 + n))" if "n < 7" for n
    using that all [of "25 + n"] by simp
  have 5: "fid ! 9 = CHR ''-''" "fid ! 18 = CHR ''-''" "fid ! 24 = CHR ''-''"
    using all [of 9] all [of 18] all [of 24] by simp_all
  show "idRegex fid"
    unfolding idRegex_index using len 1 2 3 4 5 by blast
qed


subsection \<open>The literal identifier of the README\<close>

text \<open>
  C9. \<^verbatim>\<open>Verify("IPIH7MI2=-EABCCDEF-MISCR-V669VFQ", "")\<close> returns \<^verbatim>\<open>true\<close> and no error: with
  the empty secret only the structure of the identifier is checked, and this one passes.
\<close>

theorem Verify_readme_id:
  "Verify ''IPIH7MI2=-EABCCDEF-MISCR-V669VFQ'' [] = (True, None)"
  by code_simp

subsection \<open>Malformed identifiers\<close>

text \<open>
  C8. \<^verbatim>\<open>Verify\<close> never panics, and on every string that is not in the canonical layout (a
  length other than 32, a dash missing from a delimiter position, or a character outside
  \<^verbatim>\<open>[A-Z0-9=]\<close> inside a segment) it returns \<^verbatim>\<open>false\<close> with one of the three structural
  errors, whatever the secret.
\<close>

theorem Verify_rejects_malformed:
  "snd (Verify fid vendorSecret) \<noteq> Some RuntimePanic \<and>
   (\<not> canonical fid \<longrightarrow>
      Verify fid vendorSecret = (False, Some ErrInvalidLength) \<or>
      Verify fid vendorSecret = (False, Some ErrInvalidFormat) \<or>
      Verify fid vendorSecret = (False, Some ErrElementCount))"
proof (cases "vendorSecret = []")
  case True
  then show ?thesis
    using Verify_no_panic [of fid vendorSecret]
    by (simp add: Verify_structural idRegex_canonical)
next
  case False
  then show ?thesis
    using Verify_no_panic [of fid vendorSecret]
    by (simp add: Verify_secret idRegex_canonical)
qed

theorem Verify_rejects_malformed_witness:
  "\<not> canonical ''EFORTKPS-55QRHT4ET-USC1B-XRAQPPD'' \<and>
   Verify ''EFORTKPS-55QRHT4ET-USC1B-XRAQPPD'' ''s'' = (False, Some ErrInvalidFormat)"
proof -
  have n: "\<not> canonical ''EFORTKPS-55QRHT4ET-USC1B-XRAQPPD''"
    by code_simp
  then have "Verify ''EFORTKPS-55QRHT4ET-USC1B-XRAQPPD'' ''s'' = (False, Some ErrInvalidFormat)"
    by (simp add: Verify_secret idRegex_canonical)
  then show ?thesis
    using n Verify_rejects_malformed [of "''EFORTKPS-55QRHT4ET-USC1B-XRAQPPD''" "''s''"] by blast
qed

lemma formatBits_small: "u < 36 \<Longrightarrow> formatBits u 36 = [formatDigits ! u]"
  by (simp add: formatBits.simps)

lemma formatBits_large:
  "36 \<le> u \<Longrightarrow> formatBits u 36 = formatBits (u div 36) 36 @ [formatDigits ! (u mod 36)]"
  by (subst formatBits.simps) simp

lemma length_formatBits_small: "u < 36 \<Longrightarrow> length (formatBits u 36) = 1"
  by (simp add: formatBits_small)

lemma length_formatBits_large:
  "36 \<le> u \<Longrightarrow> length (formatBits u 36) = Suc (length (formatBits (u div 36) 36))"
  by (simp add: formatBits_large)

lemma ToUpper_formatBits_small: "u < 36 \<Longrightarrow> ToUpper (formatBits u 36) = [letterBytes ! u]"
  by (simp add: formatBits_small ToUpper_def digit_facts)

lemma ToUpper_formatBits_large:
  "36 \<le> u \<Longrightarrow>
     ToUpper (formatBits u 36) = ToUpper (formatBits (u div 36) 36) @ [letterBytes ! (u mod 36)]"
  by (simp add: formatBits_large ToUpper_def digit_facts)

lemma formatBits_digits:
  "\<forall>c\<in>set (ToUpper (formatBits u 36)). \<exists>k<36. c = letterBytes ! k"
proof (induction u rule: less_induct)
  case (less u)
  show ?case
  proof (cases "u < 36")
    case True
    then show ?thesis by (auto simp: ToUpper_formatBits_small)
  next
    case False
    then have "u div 36 < u" by simp
    from less [OF this] False show ?thesis
      by (auto simp: ToUpper_formatBits_large intro: exI [of _ "u mod 36"])
  qed
qed

lemma formatBits_class: "list_all idClass (ToUpper (formatBits u 36))"
  using formatBits_digits [of u] by (auto simp: list_all_iff digit_facts)

lemma formatBits_no_pad: "CHR ''='' \<notin> set (ToUpper (formatBits u 36))"
proof
  assume "CHR ''='' \<in> set (ToUpper (formatBits u 36))"
  then obtain k where "k < 36" and "CHR ''='' = letterBytes ! k"
    using formatBits_digits [of u] by blast
  then show False
    using digit_facts(3) [of k] by simp
qed

lemma formatBits_nonempty: "ToUpper (formatBits u 36) \<noteq> []"
  by (cases "u < 36") (simp_all add: ToUpper_formatBits_small ToUpper_formatBits_large)

lemma formatBits_length: "u < 36 ^ Suc k \<Longrightarrow> length (formatBits u 36) \<le> Suc k"
proof (induction k arbitrary: u)
  case 0
  then show ?case by (simp add: formatBits_small)
next
  case (Suc k)
  show ?case
  proof (cases "u < 36")
    case True
    then show ?thesis by (simp add: formatBits_small)
  next
    case False
    from Suc.prems have "u div 36 < 36 ^ Suc k"
      by (simp add: less_mult_imp_div_less mult.commute)
    from Suc.IH [OF this] False show ?thesis
      by (simp add: formatBits_large)
  qed
qed

lemma parseDigits_step:
  assumes "k < 36" and "n * 36 + k < 2 ^ 64"
  shows "parseDigits 36 n (letterBytes ! k # rest) = parseDigits 36 (n * 36 + k) rest"
proof -
  have "n \<le> (2 ^ 64 - 1) div 36"
    using assms(2) by simp
  then show ?thesis
    using assms by (simp add: digit_facts)
qed

lemma parseDigits_formatBits:
  "n * 36 ^ length (formatBits u 36) + u < 2 ^ 64 \<Longrightarrow>
     parseDigits 36 n (ToUpper (formatBits u 36) @ rest) =
     parseDigits 36 (n * 36 ^ length (formatBits u 36) + u) rest"
proof (induction u arbitrary: n rest rule: less_induct)
  case (less u)
  show ?case
  proof (cases "u < 36")
    case True
    with less.prems have "n * 36 + u < 2 ^ 64"
      by (simp add: length_formatBits_small)
    from parseDigits_step [OF True this] True show ?thesis
      by (simp add: ToUpper_formatBits_small length_formatBits_small del: parseDigits.simps)
  next
    case False
    let ?L = "length (formatBits (u div 36) 36)"
    have lt: "u div 36 < u" using False by simp
    have split: "n * 36 ^ Suc ?L + u = (n * 36 ^ ?L + u div 36) * 36 + u mod 36"
      by (simp add: algebra_simps)
    have bound: "(n * 36 ^ ?L + u div 36) * 36 + u mod 36 < 2 ^ 64"
      using less.prems False split by (simp add: length_formatBits_large)
    have "n * 36 ^ ?L + u div 36 \<le> (n * 36 ^ ?L + u div 36) * 36 + u mod 36"
      by simp
    from this bound have b2: "n * 36 ^ ?L + u div 36 < 2 ^ 64"
      by (rule le_less_trans)
    have "parseDigits 36 n (ToUpper (formatBits u 36) @ rest) =
          parseDigits 36 n (ToUpper (formatBits (u div 36) 36) @ letterBytes ! (u mod 36) # rest)"
      using False by (simp add: ToUpper_formatBits_large)
    also have "\<dots> = parseDigits 36 (n * 36 ^ ?L + u div 36) (letterBytes ! (u mod 36) # rest)"
      by (rule less.IH [OF lt b2])
    also have "\<dots> = parseDigits 36 ((n * 36 ^ ?L + u div 36) * 36 + u mod 36) rest"
      by (rule parseDigits_step) (use bound in simp_all)
    finally have fin: "parseDigits 36 n (ToUpper (formatBits u 36) @ rest) =
        parseDigits 36 ((n * 36 ^ ?L + u div 36) * 36 + u mod 36) rest" .
    have len: "length (formatBits u 36) = Suc ?L"
      using False by (simp add: length_formatBits_large)
    show ?thesis
      unfolding len split using fin .
  qed
qed

lemma ParseInt_formatBits:
  assumes "u < 2 ^ 63"
  shows "ParseInt (ToUpper (formatBits u 36)) 36 = Inr (int u)"
proof -
  let ?K = "ToUpper (formatBits u 36)"
  have ne: "?K \<noteq> []" by (rule formatBits_nonempty)
  have "hd ?K \<in> set ?K" using ne by simp
  then have "idClass (hd ?K)"
    using formatBits_class [of u] by (simp add: list_all_iff)
  then have sign: "hd ?K \<noteq> CHR ''-''" "hd ?K \<noteq> CHR ''+''"
    by (simp_all add: idClass_facts)
  have "parseDigits 36 0 (?K @ []) = parseDigits 36 (0 * 36 ^ length (formatBits u 36) + u) []"
    by (rule parseDigits_formatBits) (use assms in simp)
  then have "ParseUint ?K 36 = Inr u"
    using ne by (simp add: ParseUint_def)
  then show ?thesis
    using ne sign assms by (simp add: ParseInt_def)
qed

lemma Replace_filter: "Replace s c [] = filter (\<lambda>x. x \<noteq> c) s"
  by (induction s) (simp_all add: Replace_def)

lemma millis_bound:
  assumes "0 \<le> sint (now :: 64 word)"
  shows "nat (sint now div 1000000) < 36 ^ 9" and "nat (sint now div 1000000) < 2 ^ 63"
    and "sint now sdiv 1000000 = sint now div 1000000" and "0 \<le> sint now div 1000000"
proof -
  have "sint now < 2 ^ 63"
    using sint_lt [of now] by simp
  then have "sint now div 1000000 < 9223372036855"
    by simp
  then show "nat (sint now div 1000000) < 36 ^ 9" and "nat (sint now div 1000000) < 2 ^ 63"
    by simp_all
  show "0 \<le> sint now div 1000000"
    using assms by simp
  show "sint now sdiv 1000000 = sint now div 1000000"
    using assms by (simp add: signed_divide_int_def sgn_if)
qed

lemma timeDigits_props:
  assumes "0 \<le> sint now"
  shows "length (timeDigits now) \<le> 9" and "timeDigits now \<noteq> []"
    and "list_all idClass (timeDigits now)" and "CHR ''='' \<notin> set (timeDigits now)"
    and "ParseInt (timeDigits now) 36 = Inr (sint now div 1000000)"
proof -
  have "nat (sint now div 1000000) < 36 ^ Suc 8"
    using millis_bound(1) [OF assms] by simp
  then have "length (formatBits (nat (sint now div 1000000)) 36) \<le> Suc 8"
    by (rule formatBits_length)
  then show "length (timeDigits now) \<le> 9"
    by (simp add: timeDigits_def length_ToUpper)
  show "timeDigits now \<noteq> []"
    unfolding timeDigits_def by (rule formatBits_nonempty)
  show "list_all idClass (timeDigits now)"
    unfolding timeDigits_def by (rule formatBits_class)
  show "CHR ''='' \<notin> set (timeDigits now)"
    unfolding timeDigits_def by (rule formatBits_no_pad)
  show "ParseInt (timeDigits now) 36 = Inr (sint now div 1000000)"
    unfolding timeDigits_def
    using ParseInt_formatBits [OF millis_bound(2) [OF assms]] millis_bound(4) [OF assms] by simp
qed

lemma getBase32TimeKey_ok:
  assumes "0 \<le> sint now"
  shows "getBase32TimeKey now =
           (timeDigits now @ replicate (9 - length (timeDigits now)) CHR ''='', None)"
proof -
  have fmt: "ToUpper (FormatInt (sint now sdiv 1000000) timeKeyBase) = timeDigits now"
    using millis_bound(3,4) [OF assms] by (simp add: FormatInt_def timeKeyBase_def timeDigits_def)
  have len: "length (timeDigits now) \<le> 9"
    by (rule timeDigits_props [OF assms])
  show ?thesis
  proof (cases "length (timeDigits now) = 9")
    case True
    then show ?thesis
      by (simp add: getBase32TimeKey_def Let_def fmt timeKeyLength_def paddingChar_def)
  next
    case False
    with len have "length (timeDigits now) < 9" by simp
    then show ?thesis
      by (simp add: getBase32TimeKey_def Let_def fmt timeKeyLength_def paddingChar_def nat_diff_distrib)
  qed
qed

lemma timeKey_props:
  assumes nn: "0 \<le> sint now"
  defines "tk \<equiv> fst (getBase32TimeKey now)"
  shows "length tk = 9" and "list_all idClass tk"
    and "Replace tk paddingChar [] = timeDigits now"
proof -
  have tk: "tk = timeDigits now @ replicate (9 - length (timeDigits now)) CHR ''=''"
    by (simp add: tk_def getBase32TimeKey_ok [OF nn])
  show "length tk = 9"
    using timeDigits_props(1) [OF nn] by (simp add: tk)
  have "idClass CHR ''=''" by code_simp
  then show "list_all idClass tk"
    using timeDigits_props(3) [OF nn] by (auto simp: tk list_all_iff)
  have "filter (\<lambda>x. x \<noteq> CHR ''='') (timeDigits now) = timeDigits now"
    using timeDigits_props(4) [OF nn] by (auto simp: filter_id_conv)
  then show "Replace tk paddingChar [] = timeDigits now"
    by (simp add: tk Replace_filter paddingChar_def)
qed

lemma length_letterBytes: "length letterBytes = 36"
  by (simp add: letterBytes_def)

lemma getRandString_props:
  "length (getRandString n rnd) = n" "list_all idClass (getRandString n rnd)"
  by (simp_all add: getRandString_def list_all_iff length_letterBytes digit_facts(2))

lemma length_preResult_pos: "\<not> length (preResult now rnd i v t s l) < 1"
  by (simp add: preResult_def length_ToUpper)

lemma hex_case:
  "(case EncodeToString (md5_Sum m) of [] \<Rightarrow> a | h # x \<Rightarrow> f h) =
     f (hd (EncodeToString (md5_Sum m)))"
proof -
  obtain h r where "EncodeToString (md5_Sum m) = h # r"
    by (rule EncodeToString_md5)
  then show ?thesis by simp
qed

lemma hex_take1:
  "take (Suc 0) (EncodeToString (md5_Sum m)) = [hd (EncodeToString (md5_Sum m))]"
proof -
  obtain h r where "EncodeToString (md5_Sum m) = h # r"
    by (rule EncodeToString_md5)
  then show ?thesis by simp
qed

lemma Generate_unfold:
  assumes "snd (getBase32TimeKey now) = None" and "length vendor = 3" and "length nType = 2"
  shows "Generate now rnd ind vendor nType nSubType loc secret =
     (let pre = preResult now rnd ind vendor nType nSubType loc in
      if secret = [] then (pre, None)
      else (take (length pre - 1) pre @ checksumChar secret (take (length pre - 1) pre), None))"
proof -
  obtain tk where tk: "getBase32TimeKey now = (tk, None)"
    using assms(1) by (cases "getBase32TimeKey now") simp
  show ?thesis
    using assms(2,3)
    by (simp add: Generate_def Let_def tk preResult_def checksumChar_def hex_case hex_take1
        vendorLength_def typeElementLength_def length_ToUpper)
qed

lemma sint_millis:
  fixes ms :: int
  assumes "0 \<le> ms" and "ms * 1000000 < 2 ^ 63"
  shows "sint (word_of_int ms * 1000000 :: 64 word) = ms * 1000000"
proof -
  have a: "sint (word_of_int k :: 64 word) = k" if "0 \<le> k" "k < 2 ^ 63" for k
    using that by (simp add: signed_of_int signed_take_bit_int_eq_self)
  have b: "(word_of_int (ms * 1000000) :: 64 word) = word_of_int ms * 1000000"
    by simp
  from assms have "0 \<le> ms * 1000000"
    by simp
  from a [OF this assms(2)] show ?thesis
    unfolding b .
qed

lemma indicator_table:
  "list_all (\<lambda>i. length i = 1 \<and> list_all idClass i \<and> isValidIndicator i) indicators"
  by code_simp

lemma indicator_facts:
  assumes "i \<in> set indicators"
  shows "length i = 1" and "list_all idClass i" and "isValidIndicator i"
  using assms indicator_table by (simp_all add: list_all_iff)

lemma ToUpper_delim: "upper_byte CHR ''-'' = CHR ''-''"
  by code_simp

lemma ToUpper_Cons: "ToUpper (c # s) = upper_byte c # ToUpper s" and ToUpper_Nil: "ToUpper [] = []"
  by (simp_all add: ToUpper_def)

lemma unknownLocation_class: "list_all idClass unknownLocationValue"
  by code_simp

lemma preResult_valid:
  assumes nn: "0 \<le> sint now" and v: "validInput ind vendor nType nSubType loc"
    and cl: "list_all idClass (ToUpper (vendor @ nType @ nSubType @ loc))"
  shows "preResult now rnd ind vendor nType nSubType loc =
           fst (getBase32TimeKey now) @ CHR ''-'' #
           (ind @ ToUpper vendor @ ToUpper nType @ ToUpper nSubType) @ CHR ''-'' #
           (if loc = [] then unknownLocationValue else ToUpper loc) @ CHR ''-'' #
           getRandString 7 rnd" (is "_ = ?rhs")
    and "idRegex (preResult now rnd ind vendor nType nSubType loc)"
proof -
  from v have i: "length ind = 1" "list_all idClass ind" "isValidIndicator ind"
    and len: "length vendor = 3" "length nType = 2" "length nSubType = 2" "loc = [] \<or> length loc = 5"
    by (simp_all add: validInput_def indicator_facts)
  have up: "ToUpper (fst (getBase32TimeKey now)) = fst (getBase32TimeKey now)"
    "ToUpper ind = ind" "ToUpper (getRandString 7 rnd) = getRandString 7 rnd"
    "ToUpper unknownLocationValue = unknownLocationValue"
    by (simp_all add: ToUpper_idClass timeKey_props [OF nn] i getRandString_props
        unknownLocation_class)
  show eq: "preResult now rnd ind vendor nType nSubType loc = ?rhs"
    using i len
    by (auto simp: preResult_def ToUpper_append ToUpper_Cons ToUpper_delim up delimitChar_def
        typeElementLength_def priLocationLength_def randLen_def)
  have "idRegex ?rhs"
  proof (rule idRegex_build)
    show "length (fst (getBase32TimeKey now)) = 9" "list_all idClass (fst (getBase32TimeKey now))"
      by (simp_all add: timeKey_props [OF nn])
    show "length (ind @ ToUpper vendor @ ToUpper nType @ ToUpper nSubType) = 8"
      using i len by (simp add: length_ToUpper)
    show "list_all idClass (ind @ ToUpper vendor @ ToUpper nType @ ToUpper nSubType)"
      using i cl by (simp add: ToUpper_append)
    show "length (if loc = [] then unknownLocationValue else ToUpper loc) = 5"
      using len by (auto simp: length_ToUpper unknownLocationValue_def)
    show "list_all idClass (if loc = [] then unknownLocationValue else ToUpper loc)"
      using cl by (simp add: ToUpper_append unknownLocation_class)
    show "length (getRandString 7 rnd) = 7" "list_all idClass (getRandString 7 rnd)"
      by (simp_all add: getRandString_props)
  qed
  with eq show "idRegex (preResult now rnd ind vendor nType nSubType loc)"
    by simp
qed

lemma idRegex_replace_last:
  assumes "idRegex s" and "idClass c"
  shows "idRegex (take 31 s @ [c])"
proof -
  from assms(1) have len: "length s = 32" by (rule idRegex_length)
  have nth: "(take 31 s @ [c]) ! i = (if i < 31 then s ! i else c)" if "i < 32" for i
    using len that by (auto simp: nth_append)
  from assms(1) have in1: "\<And>n. n < 9 \<Longrightarrow> idClass (s ! (0 + n))"
    and in2: "\<And>n. n < 8 \<Longrightarrow> idClass (s ! (10 + n))"
    and in3: "\<And>n. n < 5 \<Longrightarrow> idClass (s ! (19 + n))"
    and in4: "\<And>n. n < 7 \<Longrightarrow> idClass (s ! (25 + n))"
    and d: "s ! 9 = CHR ''-''" "s ! 18 = CHR ''-''" "s ! 24 = CHR ''-''"
    unfolding idRegex_index by simp_all
  have 1: "idClass ((take 31 s @ [c]) ! (0 + n))" if "n < 9" for n
    using that in1 [of n] nth [of "0 + n"] by simp
  have 2: "idClass ((take 31 s @ [c]) ! (10 + n))" if "n < 8" for n
    using that in2 [of n] nth [of "10 + n"] by simp
  have 3: "idClass ((take 31 s @ [c]) ! (19 + n))" if "n < 5" for n
    using that in3 [of n] nth [of "19 + n"] by simp
  have 4: "idClass ((take 31 s @ [c]) ! (25 + n))" if "n < 7" for n
    using that in4 [of n] nth [of "25 + n"] assms(2) by simp
  have 5: "(take 31 s @ [c]) ! 9 = CHR ''-''" "(take 31 s @ [c]) ! 18 = CHR ''-''"
    "(take 31 s @ [c]) ! 24 = CHR ''-''"
    using d nth [of 9] nth [of 18] nth [of 24] by simp_all
  have "length (take 31 s @ [c]) = 32"
    using len by simp
  then show ?thesis
    unfolding idRegex_index using 1 2 3 4 5 by blast
qed

lemma Generate_valid:
  fixes rnd :: "nat \<Rightarrow> nat"
  assumes nn: "0 \<le> sint now" and v: "validInput ind vendor nType nSubType loc"
    and cl: "list_all idClass (ToUpper (vendor @ nType @ nSubType @ loc))"
  defines "pre \<equiv> preResult now rnd ind vendor nType nSubType loc"
  shows "Generate now rnd ind vendor nType nSubType loc secret =
           (if secret = [] then pre else take 31 pre @ checksumChar secret (take 31 pre), None)"
    and "idRegex (fst (Generate now rnd ind vendor nType nSubType loc secret))"
    and "take 31 (fst (Generate now rnd ind vendor nType nSubType loc secret)) = take 31 pre"
    and "take 9 (fst (Generate now rnd ind vendor nType nSubType loc secret)) =
           fst (getBase32TimeKey now)"
proof -
  have re: "idRegex pre"
    unfolding pre_def by (rule preResult_valid [OF nn v cl])
  then have len: "length pre = 32" by (rule idRegex_length)
  have tk: "snd (getBase32TimeKey now) = None"
    by (simp add: getBase32TimeKey_ok [OF nn])
  from v have "length vendor = 3" "length nType = 2"
    by (simp_all add: validInput_def)
  from Generate_unfold [OF tk this]
  show g: "Generate now rnd ind vendor nType nSubType loc secret =
           (if secret = [] then pre else take 31 pre @ checksumChar secret (take 31 pre), None)"
    using len by (simp add: Let_def pre_def)
  obtain c where c: "checksumChar secret (take 31 pre) = [c]" "idClass c"
    by (rule checksumChar_class)
  show r: "idRegex (fst (Generate now rnd ind vendor nType nSubType loc secret))"
    using re c idRegex_replace_last [OF re c(2)] by (simp add: g)
  show t: "take 31 (fst (Generate now rnd ind vendor nType nSubType loc secret)) = take 31 pre"
    using len by (simp add: g)
  have "take 9 (take 31 (fst (Generate now rnd ind vendor nType nSubType loc secret))) =
        take 9 (take 31 pre)"
    by (simp only: t)
  moreover have "take 9 pre = fst (getBase32TimeKey now)"
    unfolding pre_def preResult_valid(1) [OF nn v cl]
    by (simp add: timeKey_props(1) [OF nn])
  ultimately show "take 9 (fst (Generate now rnd ind vendor nType nSubType loc secret)) =
           fst (getBase32TimeKey now)"
    by simp
qed

lemma Verify_with_check:
  assumes re: "idRegex (p @ c)" and p: "length p = 31" and s: "secret \<noteq> []"
  shows "Verify (p @ c) secret =
           (if checksumChar secret p \<noteq> c then (False, Some ErrChecksum) else (True, None))"
proof -
  have "length (p @ c) = 32"
    using re by (rule idRegex_length)
  moreover have "take 31 (p @ c) = p" "drop 31 (p @ c) = c"
    using p by simp_all
  ultimately show ?thesis
    unfolding Verify_secret [OF s] using re by simp
qed

lemma Generate_secret:
  fixes rnd :: "nat \<Rightarrow> nat"
  assumes "0 \<le> sint now" and "validInput ind vendor nType nSubType loc"
    and "list_all idClass (ToUpper (vendor @ nType @ nSubType @ loc))"
    and "secret \<noteq> []"
  defines "p \<equiv> take 31 (preResult now rnd ind vendor nType nSubType loc)"
  shows "Generate now rnd ind vendor nType nSubType loc secret = (p @ checksumChar secret p, None)"
    and "idRegex (p @ checksumChar secret p)" and "length p = 31"
proof -
  show g: "Generate now rnd ind vendor nType nSubType loc secret = (p @ checksumChar secret p, None)"
    using Generate_valid(1) [OF assms(1-3)] assms(4) by (simp add: p_def)
  show "idRegex (p @ checksumChar secret p)"
    using Generate_valid(2) [OF assms(1-3), of rnd secret] by (simp add: g)
  have "length (preResult now rnd ind vendor nType nSubType loc) = 32"
    using preResult_valid(2) [OF assms(1-3)] by (rule idRegex_length)
  then show "length p = 31"
    by (simp add: p_def)
qed

theorem Verify_Generate:
  assumes "0 \<le> sint now" and "validInput ind vendor nType nSubType loc"
    and "list_all idClass (ToUpper (vendor @ nType @ nSubType @ loc))"
    and "secret \<noteq> []"
  shows "snd (Generate now rnd ind vendor nType nSubType loc secret) = None \<and>
         Verify (fst (Generate now rnd ind vendor nType nSubType loc secret)) secret = (True, None)"
  using Generate_secret [OF assms, of rnd]
  by (simp add: Verify_with_check [OF _ _ assms(4)])

theorem Verify_other_secret:
  assumes "0 \<le> sint now" and "validInput ind vendor nType nSubType loc"
    and "list_all idClass (ToUpper (vendor @ nType @ nSubType @ loc))"
    and "secret \<noteq> []" and "secret' \<noteq> []"
  shows "Verify (fst (Generate now rnd ind vendor nType nSubType loc secret)) secret' =
           (if checksumChar secret' (take 31 (preResult now rnd ind vendor nType nSubType loc)) =
               checksumChar secret (take 31 (preResult now rnd ind vendor nType nSubType loc))
            then (True, None) else (False, Some ErrChecksum))"
  using Generate_secret [OF assms(1-4), of rnd]
  by (simp add: Verify_with_check [OF _ _ assms(5)])

end
